theory Spec2Isabelle
  imports Main "HOL-Library.Word"
begin

unbundle bit_operations_syntax

section \<open>The SRP password-check payload of \<open>src/tg_bot/botApi.js\<close>\<close>

text \<open>
  The development embeds \<open>getPasswordParams\<close> and \<open>createPasswordCheckPayload\<close> together
  with the library calls they make: \<open>crypto.createHash('sha256')\<close>, \<open>Buffer.from\<close>,
  \<open>Buffer.concat\<close>, \<open>Buffer.toString('hex')\<close> of the runtime, and \<open>bigInt(text, 16)\<close>,
  \<open>modPow\<close>, \<open>subtract\<close>, \<open>toArray\<close>, \<open>toString\<close> of the big-integer package.
  A buffer is a list of bytes, a big integer is an \<open>int\<close>, a thrown exception is the \<open>Inl\<close>
  side of a sum. The exceptions are those of the runtime and of the package: neither function
  of the source defines an error class of its own.
\<close>

type_synonym byte = "8 word"
type_synonym u32 = "32 word"

datatype error =
    NoResponse
  | MissingFields
  | TypeError
  | NotAValidDigit
  | NotAValidCharacter
  | InvalidInteger
  | ModulusZero

definition bindE :: "error + 'a \<Rightarrow> ('a \<Rightarrow> error + 'b) \<Rightarrow> error + 'b" where
  "bindE r f = (case r of Inl e \<Rightarrow> Inl e | Inr v \<Rightarrow> f v)"

subsection \<open>SHA-256 (\<open>crypto.createHash('sha256').update(buf).digest()\<close>)\<close>

text \<open>The 64 round constants, one row for every eight rounds.\<close>

definition sha256_K :: "u32 list" where
  "sha256_K = concat
    [[0x428a2f98, 0x71374491, 0xb5c0fbcf, 0xe9b5dba5, 0x3956c25b, 0x59f111f1, 0x923f82a4, 0xab1c5ed5],
     [0xd807aa98, 0x12835b01, 0x243185be, 0x550c7dc3, 0x72be5d74, 0x80deb1fe, 0x9bdc06a7, 0xc19bf174],
     [0xe49b69c1, 0xefbe4786, 0x0fc19dc6, 0x240ca1cc, 0x2de92c6f, 0x4a7484aa, 0x5cb0a9dc, 0x76f988da],
     [0x983e5152, 0xa831c66d, 0xb00327c8, 0xbf597fc7, 0xc6e00bf3, 0xd5a79147, 0x06ca6351, 0x14292967],
     [0x27b70a85, 0x2e1b2138, 0x4d2c6dfc, 0x53380d13, 0x650a7354, 0x766a0abb, 0x81c2c92e, 0x92722c85],
     [0xa2bfe8a1, 0xa81a664b, 0xc24b8b70, 0xc76c51a3, 0xd192e819, 0xd6990624, 0xf40e3585, 0x106aa070],
     [0x19a4c116, 0x1e376c08, 0x2748774c, 0x34b0bcb5, 0x391c0cb3, 0x4ed8aa4a, 0x5b9cca4f, 0x682e6ff3],
     [0x748f82ee, 0x78a5636f, 0x84c87814, 0x8cc70208, 0x90befffa, 0xa4506ceb, 0xbef9a3f7, 0xc67178f2]]"

record sha256_state =
  st_a :: u32
  st_b :: u32
  st_c :: u32
  st_d :: u32
  st_e :: u32
  st_f :: u32
  st_g :: u32
  st_h :: u32

definition sha256_init :: sha256_state where
  "sha256_init = \<lparr>st_a = 0x6a09e667, st_b = 0xbb67ae85, st_c = 0x3c6ef372, st_d = 0xa54ff53a,
                   st_e = 0x510e527f, st_f = 0x9b05688c, st_g = 0x1f83d9ab, st_h = 0x5be0cd19\<rparr>"

text \<open>Big-endian reading and writing of 32-bit and 64-bit quantities.\<close>

definition be32 :: "byte \<Rightarrow> byte \<Rightarrow> byte \<Rightarrow> byte \<Rightarrow> u32" where
  "be32 a b c d = push_bit 24 (ucast a) OR push_bit 16 (ucast b) OR push_bit 8 (ucast c) OR ucast d"

definition bytes_of_u32 :: "u32 \<Rightarrow> byte list" where
  "bytes_of_u32 w = [ucast (drop_bit 24 w), ucast (drop_bit 16 w), ucast (drop_bit 8 w), ucast w]"

definition bytes_of_len :: "64 word \<Rightarrow> byte list" where
  "bytes_of_len w = map (\<lambda>i. ucast (drop_bit i w)) [56, 48, 40, 32, 24, 16, 8, 0]"

text \<open>Padding: a one bit, zero bits up to 56 mod 64 bytes, the bit length on 8 bytes.\<close>

definition sha256_pad :: "byte list \<Rightarrow> byte list" where
  "sha256_pad m =
     m @ [0x80] @ replicate ((64 - (length m + 9) mod 64) mod 64) 0 @ bytes_of_len (of_nat (8 * length m))"

fun sha256_words :: "byte list \<Rightarrow> u32 list" where
  "sha256_words (a # b # c # d # r) = be32 a b c d # sha256_words r"
| "sha256_words _ = []"

definition ssig0 :: "u32 \<Rightarrow> u32" where
  "ssig0 x = word_rotr 7 x XOR word_rotr 18 x XOR drop_bit 3 x"

definition ssig1 :: "u32 \<Rightarrow> u32" where
  "ssig1 x = word_rotr 17 x XOR word_rotr 19 x XOR drop_bit 10 x"

definition bsig0 :: "u32 \<Rightarrow> u32" where
  "bsig0 x = word_rotr 2 x XOR word_rotr 13 x XOR word_rotr 22 x"

definition bsig1 :: "u32 \<Rightarrow> u32" where
  "bsig1 x = word_rotr 6 x XOR word_rotr 11 x XOR word_rotr 25 x"

definition ch :: "u32 \<Rightarrow> u32 \<Rightarrow> u32 \<Rightarrow> u32" where
  "ch x y z = (x AND y) XOR (NOT x AND z)"

definition maj :: "u32 \<Rightarrow> u32 \<Rightarrow> u32 \<Rightarrow> u32" where
  "maj x y z = (x AND y) XOR (x AND z) XOR (y AND z)"

text \<open>The message schedule: 16 words of the block extended to 64.\<close>

fun sha256_schedule :: "nat \<Rightarrow> u32 list \<Rightarrow> u32 list" where
  "sha256_schedule 0 w = w"
| "sha256_schedule (Suc n) w =
     (let i = length w in
      sha256_schedule n
        (w @ [ssig1 (w ! (i - 2)) + w ! (i - 7) + ssig0 (w ! (i - 15)) + w ! (i - 16)]))"

definition sha256_round :: "sha256_state \<Rightarrow> u32 \<times> u32 \<Rightarrow> sha256_state" where
  "sha256_round s kw =
     (let t1 = st_h s + bsig1 (st_e s) + ch (st_e s) (st_f s) (st_g s) + fst kw + snd kw;
          t2 = bsig0 (st_a s) + maj (st_a s) (st_b s) (st_c s)
      in \<lparr>st_a = t1 + t2, st_b = st_a s, st_c = st_b s, st_d = st_c s,
          st_e = st_d s + t1, st_f = st_e s, st_g = st_f s, st_h = st_g s\<rparr>)"

definition sha256_block :: "sha256_state \<Rightarrow> byte list \<Rightarrow> sha256_state" where
  "sha256_block s blk =
     (let w = sha256_schedule 48 (sha256_words blk);
          t = foldl sha256_round s (zip sha256_K w)
      in \<lparr>st_a = st_a s + st_a t, st_b = st_b s + st_b t, st_c = st_c s + st_c t, st_d = st_d s + st_d t,
          st_e = st_e s + st_e t, st_f = st_f s + st_f t, st_g = st_g s + st_g t, st_h = st_h s + st_h t\<rparr>)"

fun sha256_blocks :: "nat \<Rightarrow> sha256_state \<Rightarrow> byte list \<Rightarrow> sha256_state" where
  "sha256_blocks 0 s bs = s"
| "sha256_blocks (Suc n) s bs = sha256_blocks n (sha256_block s (take 64 bs)) (drop 64 bs)"

definition sha256 :: "byte list \<Rightarrow> byte list" where
  "sha256 m =
     (let p = sha256_pad m;
          s = sha256_blocks (length p div 64) sha256_init p
      in bytes_of_u32 (st_a s) @ bytes_of_u32 (st_b s) @ bytes_of_u32 (st_c s) @ bytes_of_u32 (st_d s) @
         bytes_of_u32 (st_e s) @ bytes_of_u32 (st_f s) @ bytes_of_u32 (st_g s) @ bytes_of_u32 (st_h s))"

subsection \<open>Buffers and text\<close>

text \<open>
  Text is a list of 8-bit characters, so the model covers JavaScript strings of code points
  below 256. \<open>Buffer.from(text, 'utf-8')\<close> writes one byte below 128 and two bytes above.
\<close>

definition Buffer_from_utf8 :: "string \<Rightarrow> byte list" where
  "Buffer_from_utf8 text =
     concat (map (\<lambda>c. let n = (of_char c :: nat) in
                        if n < 128 then [of_nat n]
                        else [of_nat (192 + n div 64), of_nat (128 + n mod 64)]) text)"

text \<open>
  \<open>Buffer.from(text, 'base64')\<close> never throws on text: it reads both the standard and the
  URL-safe alphabet, skips every other character and stops at the first \<open>=\<close>.
\<close>

definition unbase64 :: "char \<Rightarrow> nat option" where
  "unbase64 c =
     (let n = (of_char c :: nat) in
      if 65 \<le> n \<and> n \<le> 90 then Some (n - 65)
      else if 97 \<le> n \<and> n \<le> 122 then Some (n - 71)
      else if 48 \<le> n \<and> n \<le> 57 then Some (n + 4)
      else if n = 43 \<or> n = 45 then Some 62
      else if n = 47 \<or> n = 95 then Some 63
      else None)"

fun base64_groups :: "nat list \<Rightarrow> byte list" where
  "base64_groups (a # b # c # d # r) =
     [of_nat (a * 4 + b div 16), of_nat (b mod 16 * 16 + c div 4), of_nat (c mod 4 * 64 + d)]
       @ base64_groups r"
| "base64_groups [a, b, c] = [of_nat (a * 4 + b div 16), of_nat (b mod 16 * 16 + c div 4)]"
| "base64_groups [a, b] = [of_nat (a * 4 + b div 16)]"
| "base64_groups _ = []"

definition Buffer_from_base64 :: "string \<Rightarrow> byte list" where
  "Buffer_from_base64 text =
     base64_groups (List.map_filter unbase64 (takeWhile (\<lambda>c. c \<noteq> CHR ''='') text))"

text \<open>\<open>buf.toString('hex')\<close>: two lowercase digits per byte.\<close>

definition DEFAULT_ALPHABET :: string where
  "DEFAULT_ALPHABET = ''0123456789abcdefghijklmnopqrstuvwxyz''"

definition Buffer_toString_hex :: "byte list \<Rightarrow> string" where
  "Buffer_toString_hex buf =
     concat (map (\<lambda>b. [DEFAULT_ALPHABET ! (unat b div 16), DEFAULT_ALPHABET ! (unat b mod 16)]) buf)"

text \<open>
  \<open>Buffer.concat(list)\<close> takes buffers only: it copies them one after the other and throws a
  type error at the first element that is not a buffer. The source calls it with buffers at
  line 123 and with the digit arrays of \<open>toArray(256).value\<close>, plain arrays of numbers, at
  lines 130 and 134.
\<close>

datatype jsarg = JBuffer "byte list" | JArray "nat list"

fun Buffer_concat :: "jsarg list \<Rightarrow> error + byte list" where
  "Buffer_concat [] = Inr []"
| "Buffer_concat (JBuffer buf # list) =
     (case Buffer_concat list of Inl e \<Rightarrow> Inl e | Inr bytes \<Rightarrow> Inr (buf @ bytes))"
| "Buffer_concat (JArray arr # list) = Inl TypeError"

subsection \<open>The big-integer package\<close>

text \<open>
  \<open>bigInt(v, 16)\<close>. An undefined \<open>v\<close> gives 0. A text goes to the package's \<open>parseBase\<close>:
  it is lowercased; a first pass throws on a letter or digit whose value is 16 or more (a
  \<open>-\<close> is passed over); a second pass, after an optional leading \<open>-\<close>, collects one digit
  per letter or digit, and for \<open><\<close> one digit from the text up to the next \<open>>\<close>, read by
  the package's \<open>parseValue\<close>; any other character throws. The digits are then summed with
  the powers of 16, whatever their size.

  \<open>parseValue\<close> on a text goes through the number conversion of the language and is not
  modelled: it is the parameter \<open>parseValue\<close>, \<open>None\<close> where it throws.
\<close>

definition toLowerCase :: "char \<Rightarrow> char" where
  "toLowerCase c =
     (let n = (of_char c :: nat) in
      if (65 \<le> n \<and> n \<le> 90) \<or> (192 \<le> n \<and> n \<le> 222 \<and> n \<noteq> 215) then char_of (n + 32) else c)"

definition alphabetValues :: "char \<Rightarrow> nat option" where
  "alphabetValues c =
     (let n = (of_char c :: nat) in
      if 48 \<le> n \<and> n \<le> 57 then Some (n - 48)
      else if 97 \<le> n \<and> n \<le> 122 then Some (n - 87)
      else None)"

definition too_large_digit :: "char \<Rightarrow> bool" where
  "too_large_digit c =
     (if c = CHR ''-'' then False
      else case alphabetValues c of Some v \<Rightarrow> 16 \<le> v | None \<Rightarrow> False)"

function parseBase_digits :: "(string \<Rightarrow> int option) \<Rightarrow> string \<Rightarrow> error + int list" where
  "parseBase_digits parseValue [] = Inr []"
| "parseBase_digits parseValue (c # text) =
     (case alphabetValues c of
        Some v \<Rightarrow>
          (case parseBase_digits parseValue text of
             Inl e \<Rightarrow> Inl e
           | Inr digits \<Rightarrow> Inr (int v # digits))
      | None \<Rightarrow>
          if c = CHR ''<'' then
            (case parseValue (takeWhile (\<lambda>d. d \<noteq> CHR ''>'') text) of
               None \<Rightarrow> Inl InvalidInteger
             | Some v \<Rightarrow>
                 (case parseBase_digits parseValue (drop 1 (dropWhile (\<lambda>d. d \<noteq> CHR ''>'') text)) of
                    Inl e \<Rightarrow> Inl e
                  | Inr digits \<Rightarrow> Inr (v # digits)))
          else Inl NotAValidCharacter)"
  by pat_completeness auto
termination
  by (relation "measure (\<lambda>(parseValue, text). length text)")
    (auto simp: le_imp_less_Suc length_dropWhile_le diff_le_self le_trans [OF diff_le_self])

fun parseBaseFromArray_loop :: "int list \<Rightarrow> int \<Rightarrow> int \<Rightarrow> int" where
  "parseBaseFromArray_loop [] val pow = val"
| "parseBaseFromArray_loop (d # ds) val pow =
     parseBaseFromArray_loop ds (val + d * pow) (pow * 16)"

definition parseBaseFromArray :: "int list \<Rightarrow> bool \<Rightarrow> int" where
  "parseBaseFromArray digits isNegative =
     (let val = parseBaseFromArray_loop (rev digits) 0 1 in if isNegative then - val else val)"

definition parseBase :: "(string \<Rightarrow> int option) \<Rightarrow> string \<Rightarrow> error + int" where
  "parseBase parseValue text0 =
     (let text = map toLowerCase text0 in
      if list_ex too_large_digit text then Inl NotAValidDigit
      else
        let isNegative = (take 1 text = ''-'');
            body = (if isNegative then drop 1 text else text)
        in case parseBase_digits parseValue body of
             Inl e \<Rightarrow> Inl e
           | Inr digits \<Rightarrow> Inr (parseBaseFromArray digits isNegative))"

definition bigInt16 :: "(string \<Rightarrow> int option) \<Rightarrow> string option \<Rightarrow> error + int" where
  "bigInt16 parseValue v = (case v of None \<Rightarrow> Inr 0 | Some text \<Rightarrow> parseBase parseValue text)"

text \<open>
  \<open>toBase\<close>: the digits of the absolute value, least significant first while dividing,
  reversed at the end, and the sign apart. Zero is the single digit 0. The loop is written
  for a radix of 2 or more (the package treats 0, 1 and \<open>-1\<close> apart; the source uses 256
  and 16).
\<close>

function toBase_loop :: "nat \<Rightarrow> nat \<Rightarrow> nat list \<Rightarrow> nat list" where
  "toBase_loop base left out =
     (if 2 \<le> base \<and> base \<le> left
      then toBase_loop base (left div base) (out @ [left mod base])
      else out @ [left])"
  by pat_completeness auto
termination
  by (relation "measure (\<lambda>(base, left, out). left)") auto

declare toBase_loop.simps [simp del]

record toBase_result =
  arr_value :: "nat list"
  arr_isNegative :: bool

definition toArray :: "int \<Rightarrow> nat \<Rightarrow> toBase_result" where
  "toArray n radix =
     \<lparr>arr_value = rev (toBase_loop radix (nat \<bar>n\<bar>) []), arr_isNegative = (n < 0)\<rparr>"

definition bigInt_toString :: "int \<Rightarrow> nat \<Rightarrow> string" where
  "bigInt_toString n radix =
     (let arr = toArray n radix in
      (if arr_isNegative arr then ''-'' else []) @ map (\<lambda>d. DEFAULT_ALPHABET ! d) (arr_value arr))"

text \<open>
  \<open>mod\<close> of the package keeps the sign of the dividend. \<open>modPow\<close> reduces the base with
  it once and then squares and multiplies, reducing with it after every product. The exponent
  is a \<open>nat\<close>: both calls of the source pass an exponent read from the hexadecimal text of
  a buffer, or a sum and product of such, so the package's branch for a negative exponent
  is never entered.
\<close>

definition bigInt_mod :: "int \<Rightarrow> int \<Rightarrow> int" where
  "bigInt_mod a m = sgn a * (\<bar>a\<bar> mod \<bar>m\<bar>)"

function modPow_loop :: "int \<Rightarrow> nat \<Rightarrow> int \<Rightarrow> int \<Rightarrow> int" where
  "modPow_loop r exp base m =
     (if 0 < exp then
        (if base = 0 then 0
         else modPow_loop (if odd exp then bigInt_mod (r * base) m else r) (exp div 2)
                (bigInt_mod (base * base) m) m)
      else r)"
  by pat_completeness auto
termination
  by (relation "measure (\<lambda>(r, exp, base, m). exp)") auto

declare modPow_loop.simps [simp del]

definition modPow :: "int \<Rightarrow> nat \<Rightarrow> int \<Rightarrow> error + int" where
  "modPow b exp m = (if m = 0 then Inl ModulusZero else Inr (modPow_loop 1 exp (bigInt_mod b m) m))"

subsection \<open>\<open>getPasswordParams\<close>\<close>

text \<open>
  The response of \<open>account.getPassword\<close> is an object whose fields may be absent. \<open>srp_id\<close>
  is a string or a number, \<open>srp_B\<close> and \<open>current_salt\<close> are strings. The negation \<open>!v\<close> of
  the source holds of an absent field, of the empty string and of the number 0.
\<close>

datatype jsval = JSString string | JSNumber int

record passwordDetails =
  srp_id :: "jsval option"
  srp_B :: "string option"
  current_salt :: "string option"

definition falsy_val :: "jsval option \<Rightarrow> bool" where
  "falsy_val v =
     (case v of None \<Rightarrow> True | Some (JSString s) \<Rightarrow> s = [] | Some (JSNumber n) \<Rightarrow> n = 0)"

definition falsy_text :: "string option \<Rightarrow> bool" where
  "falsy_text v = (case v of None \<Rightarrow> True | Some s \<Rightarrow> s = [])"

definition getPasswordParams :: "passwordDetails option \<Rightarrow> error + passwordDetails" where
  "getPasswordParams response =
     (case response of
        None \<Rightarrow> Inl NoResponse
      | Some passwordDetails \<Rightarrow>
          if falsy_val (srp_id passwordDetails) \<or> falsy_text (srp_B passwordDetails)
             \<or> falsy_text (current_salt passwordDetails)
          then Inl MissingFields
          else Inr passwordDetails)"

subsection \<open>\<open>createPasswordCheckPayload\<close>\<close>

text \<open>
  The function is one sequence of bindings. Each binding is a definition here, named after
  what it binds and marked with its lines, and the function chains them in the order of
  the source: an exception at one line skips every later one.
\<close>

definition g :: int where
  "g = 2"

definition N_text :: string where
  "N_text =
     ''AC6BDB41324A9A9BF166DE5E1389582FAF72B665198FFB3E2C6D9A8C12AD3D9A86917F1FE55E7182967C2E4D'' @
     ''FCE10D86AA6D5FDEDD532F3A942D5EEC0A3C9CEFAF9643DB81E2AFCBDC7D465F20AB4FA91852C1696F769A9A2C''"

definition N :: int where
  "N = 0xAC6BDB41324A9A9BF166DE5E1389582FAF72B665198FFB3E2C6D9A8C12AD3D9A86917F1FE55E7182967C2E4DFCE10D86AA6D5FDEDD532F3A942D5EEC0A3C9CEFAF9643DB81E2AFCBDC7D465F20AB4FA91852C1696F769A9A2C"

record payload =
  payload_tag :: string
  payload_srp_id :: "jsval option"
  payload_A :: string
  payload_M1 :: string

text \<open>
  Lines 121 to 125, \<open>x\<close>. An absent \<open>current_salt\<close> makes \<open>Buffer.from\<close> throw a type error.
\<close>

definition session_secret ::
    "(string \<Rightarrow> int option) \<Rightarrow> string option \<Rightarrow> string \<Rightarrow> error + int" where
  "session_secret parseValue salt_field password =
     (case salt_field of
        None \<Rightarrow> Inl TypeError
      | Some salt_text \<Rightarrow>
          let salt = Buffer_from_base64 salt_text;
              passwordBytes = Buffer_from_utf8 password
          in bindE (Buffer_concat [JBuffer salt, JBuffer passwordBytes]) (\<lambda>buf.
               let passwordHash = sha256 buf
               in bigInt16 parseValue (Some (Buffer_toString_hex passwordHash))))"

text \<open>
  Lines 126 and 127, \<open>a\<close> and \<open>A\<close>. \<open>randomBytes\<close> is what \<open>crypto.randomBytes(256)\<close>
  returned in this call.
\<close>

definition private_ephemeral :: "(string \<Rightarrow> int option) \<Rightarrow> byte list \<Rightarrow> error + int" where
  "private_ephemeral parseValue randomBytes =
     bigInt16 parseValue (Some (Buffer_toString_hex randomBytes))"

definition public_ephemeral :: "int \<Rightarrow> error + int" where
  "public_ephemeral a = modPow g (nat a) N"

text \<open>Lines 130 and 131, \<open>u\<close>: the hash is taken over what \<open>Buffer.concat\<close> returns.\<close>

definition uHash_args :: "int \<Rightarrow> int \<Rightarrow> jsarg list" where
  "uHash_args A B = [JArray (arr_value (toArray A 256)), JArray (arr_value (toArray B 256))]"

definition scrambling_parameter :: "(string \<Rightarrow> int option) \<Rightarrow> int \<Rightarrow> int \<Rightarrow> error + int" where
  "scrambling_parameter parseValue A B =
     bindE (Buffer_concat (uHash_args A B)) (\<lambda>buf.
       let uHash = sha256 buf
       in bigInt16 parseValue (Some (Buffer_toString_hex uHash)))"

text \<open>Line 133, \<open>S\<close>.\<close>

definition shared_secret :: "int \<Rightarrow> int \<Rightarrow> int \<Rightarrow> int \<Rightarrow> error + int" where
  "shared_secret B x a u =
     bindE (modPow g (nat x) N) (\<lambda>gx. modPow (B - gx) (nat (a + u * x)) N)"

text \<open>Line 134, \<open>M1Hash\<close>.\<close>

definition M1Hash_args :: "int \<Rightarrow> int \<Rightarrow> int \<Rightarrow> jsarg list" where
  "M1Hash_args A B S =
     [JArray (arr_value (toArray A 256)), JArray (arr_value (toArray B 256)),
      JArray (arr_value (toArray S 256))]"

definition proof_hash :: "int \<Rightarrow> int \<Rightarrow> int \<Rightarrow> error + byte list" where
  "proof_hash A B S = bindE (Buffer_concat (M1Hash_args A B S)) (\<lambda>buf. Inr (sha256 buf))"

text \<open>Lines 136 to 141, the value returned.\<close>

definition returned_payload :: "jsval option \<Rightarrow> int \<Rightarrow> byte list \<Rightarrow> payload" where
  "returned_payload srp_id_value A M1Hash =
     \<lparr>payload_tag = ''inputCheckPasswordSRP'',
      payload_srp_id = srp_id_value,
      payload_A = bigInt_toString A 16,
      payload_M1 = Buffer_toString_hex M1Hash\<rparr>"

definition createPasswordCheckPayload ::
    "(string \<Rightarrow> int option) \<Rightarrow> byte list \<Rightarrow> string \<Rightarrow> passwordDetails \<Rightarrow> error + payload" where
  "createPasswordCheckPayload parseValue randomBytes password passwordParams =
     bindE (session_secret parseValue (current_salt passwordParams) password) (\<lambda>x.
     bindE (private_ephemeral parseValue randomBytes) (\<lambda>a.
     bindE (public_ephemeral a) (\<lambda>A.
     bindE (bigInt16 parseValue (srp_B passwordParams)) (\<lambda>B.
     bindE (scrambling_parameter parseValue A B) (\<lambda>u.
     bindE (shared_secret B x a u) (\<lambda>S.
     bindE (proof_hash A B S) (\<lambda>M1Hash.
     Inr (returned_payload (srp_id passwordParams) A M1Hash))))))))"

text \<open>
  \<open>getStarsRevenueWithdrawalUrl\<close> up to the \<open>password\<close> field of its second request: the
  parameters are fetched and checked, then the payload is built from them.
\<close>

definition withdrawal_password ::
    "(string \<Rightarrow> int option) \<Rightarrow> passwordDetails option \<Rightarrow> byte list \<Rightarrow> string \<Rightarrow> error + payload" where
  "withdrawal_password parseValue response randomBytes password =
     bindE (getPasswordParams response) (createPasswordCheckPayload parseValue randomBytes password)"

subsection \<open>Notions used to state the properties\<close>

text \<open>A byte sequence read as a big-endian unsigned integer.\<close>

definition be_decode :: "byte list \<Rightarrow> int" where
  "be_decode bs = foldl (\<lambda>v b. v * 256 + uint b) 0 bs"

text \<open>Hexadecimal digit values read most significant first, and a buffer as such digits.\<close>

definition digits_val :: "int list \<Rightarrow> int" where
  "digits_val ds = foldl (\<lambda>v d. v * 16 + d) 0 ds"

definition nibbles :: "byte list \<Rightarrow> nat list" where
  "nibbles bs = concat (map (\<lambda>b. [unat b div 16, unat b mod 16]) bs)"

text \<open>Digits in radix \<open>b\<close> read least significant first, as \<open>toBase_loop\<close> produces them.\<close>

definition lsb_val :: "nat \<Rightarrow> nat list \<Rightarrow> nat" where
  "lsb_val b ds = foldr (\<lambda>d acc. d + b * acc) ds 0"

definition is_lower_hex :: "char \<Rightarrow> bool" where
  "is_lower_hex c = (c \<in> set ''0123456789abcdef'')"

subsection \<open>Example inputs\<close>

abbreviation (input) example_random :: "byte list" where
  "example_random \<equiv> replicate 255 0 @ [2]"

abbreviation (input) example_params :: passwordDetails where
  "example_params \<equiv> \<lparr>srp_id = Some (JSString ''77''), srp_B = Some ''3'', current_salt = Some ''cw==''\<rparr>"

abbreviation (input) zero_challenge_params :: passwordDetails where
  "zero_challenge_params \<equiv>
     \<lparr>srp_id = Some (JSString ''77''), srp_B = Some ''0'', current_salt = Some ''cw==''\<rparr>"

section \<open>Lemmas\<close>

lemma length_sha256: "length (sha256 m) = 32"
  by (simp add: sha256_def Let_def bytes_of_u32_def)

lemma bindE_Inr: "bindE (Inr v) f = f v"
  by (simp add: bindE_def)

lemma bindE_Inl: "bindE (Inl e) f = Inl e"
  by (simp add: bindE_def)

subsection \<open>Hexadecimal text read back by \<open>bigInt\<close>\<close>

lemma digits_val_snoc: "digits_val (ds @ [d]) = digits_val ds * 16 + d"
  by (simp add: digits_val_def)

lemma parseBaseFromArray_loop_val:
  "parseBaseFromArray_loop (rev ds) v p = v + p * digits_val ds"
proof (induction ds arbitrary: v p rule: rev_induct)
  case Nil
  show ?case by (simp add: digits_val_def)
next
  case (snoc d ds)
  show ?case by (simp add: snoc.IH digits_val_snoc algebra_simps)
qed

lemma hex_digit_cases:
  assumes "d < (16::nat)"
  shows "d \<in> {0, 1, 2, 3, 4, 5, 6, 7, 8, 9, 10, 11, 12, 13, 14, 15}"
  using assms by simp arith

lemma alphabetValues_digit: "d < 16 \<Longrightarrow> alphabetValues (DEFAULT_ALPHABET ! d) = Some d"
  using hex_digit_cases [of d] by (auto simp: DEFAULT_ALPHABET_def alphabetValues_def)

lemma toLowerCase_digit: "d < 16 \<Longrightarrow> toLowerCase (DEFAULT_ALPHABET ! d) = DEFAULT_ALPHABET ! d"
  using hex_digit_cases [of d] by (auto simp: DEFAULT_ALPHABET_def toLowerCase_def)

lemma digit_not_minus: "d < 16 \<Longrightarrow> DEFAULT_ALPHABET ! d \<noteq> CHR ''-''"
  using hex_digit_cases [of d] by (auto simp: DEFAULT_ALPHABET_def)

lemma unat_byte_lt: "unat (b::byte) < 256"
  using unsigned_less [where 'a = nat, of b] by simp

lemma nibble_hi: "unat (b::byte) div 16 < 16"
  using unat_byte_lt [of b] by simp

lemma byte_nibbles: "int (unat (b::byte) div 16) * 16 + int (unat b mod 16) = uint b"
proof -
  have "int (n div 16) * 16 + int (n mod 16) = int n" for n :: nat
    by presburger
  from this [of "unat b"] show ?thesis by simp
qed

lemma Buffer_toString_hex_nibbles:
  "Buffer_toString_hex bs = map (\<lambda>d. DEFAULT_ALPHABET ! d) (nibbles bs)"
  by (induction bs) (simp_all add: Buffer_toString_hex_def nibbles_def)

lemma digits_val_append2: "digits_val (ds @ [d, e]) = (digits_val ds * 16 + d) * 16 + e"
  by (simp add: digits_val_def)

lemma digits_val_nibbles: "digits_val (map int (nibbles bs)) = be_decode bs"
proof (induction bs rule: rev_induct)
  case Nil
  show ?case by (simp add: nibbles_def digits_val_def be_decode_def)
next
  case (snoc b bs)
  have "map int (nibbles (bs @ [b])) =
        map int (nibbles bs) @ [int (unat b div 16), int (unat b mod 16)]"
    by (simp add: nibbles_def)
  then have "digits_val (map int (nibbles (bs @ [b]))) =
             (be_decode bs * 16 + int (unat b div 16)) * 16 + int (unat b mod 16)"
    by (simp only: digits_val_append2 snoc.IH)
  also have "\<dots> = be_decode bs * 256 + uint b"
    using byte_nibbles [of b] by (simp add: algebra_simps)
  finally show ?case by (simp add: be_decode_def)
qed

lemma hex_text_lower:
  "list_all (\<lambda>d. d < 16) ds \<Longrightarrow>
   map toLowerCase (map (\<lambda>d. DEFAULT_ALPHABET ! d) ds) = map (\<lambda>d. DEFAULT_ALPHABET ! d) ds"
  by (induction ds) (simp_all add: toLowerCase_digit)

lemma hex_text_digits_ok:
  "list_all (\<lambda>d. d < 16) ds \<Longrightarrow> \<not> list_ex too_large_digit (map (\<lambda>d. DEFAULT_ALPHABET ! d) ds)"
  by (induction ds) (simp_all add: too_large_digit_def alphabetValues_digit digit_not_minus)

lemma hex_text_values:
  "list_all (\<lambda>d. d < 16) ds \<Longrightarrow>
   parseBase_digits parseValue (map (\<lambda>d. DEFAULT_ALPHABET ! d) ds) = Inr (map int ds)"
  by (induction ds) (simp_all add: alphabetValues_digit)

lemma hex_text_no_sign:
  "list_all (\<lambda>d. d < 16) ds \<Longrightarrow> take 1 (map (\<lambda>d. DEFAULT_ALPHABET ! d) ds) \<noteq> ''-''"
  by (cases ds) (simp_all add: digit_not_minus)

lemma parseBase_digits_text:
  assumes "list_all (\<lambda>d. d < 16) ds"
  shows "parseBase parseValue (map (\<lambda>d. DEFAULT_ALPHABET ! d) ds) = Inr (digits_val (map int ds))"
proof -
  let ?t = "map (\<lambda>d. DEFAULT_ALPHABET ! d) ds"
  have l: "map toLowerCase ?t = ?t" by (rule hex_text_lower [OF assms])
  show ?thesis
    unfolding parseBase_def Let_def l
    using hex_text_digits_ok [OF assms] hex_text_values [OF assms] hex_text_no_sign [OF assms]
    by (simp add: parseBaseFromArray_def parseBaseFromArray_loop_val)
qed

lemma toLowerCase_minus: "toLowerCase CHR ''-'' = CHR ''-''"
  by (simp add: toLowerCase_def)

lemma parseBase_minus_digits_text:
  assumes "list_all (\<lambda>d. d < 16) ds"
  shows "parseBase parseValue (CHR ''-'' # map (\<lambda>d. DEFAULT_ALPHABET ! d) ds) =
         Inr (- digits_val (map int ds))"
proof -
  let ?t = "map (\<lambda>d. DEFAULT_ALPHABET ! d) ds"
  have l: "map toLowerCase (CHR ''-'' # ?t) = CHR ''-'' # ?t"
    using hex_text_lower [OF assms] by (simp add: toLowerCase_minus)
  have ok: "\<not> list_ex too_large_digit (CHR ''-'' # ?t)"
    using hex_text_digits_ok [OF assms] by (simp add: too_large_digit_def)
  show ?thesis
    unfolding parseBase_def Let_def l
    using ok hex_text_values [OF assms]
    by (simp add: parseBaseFromArray_def parseBaseFromArray_loop_val)
qed

lemma nibbles_all: "list_all (\<lambda>d. d < 16) (nibbles bs)"
  by (induction bs) (simp_all add: nibbles_def nibble_hi)

lemma bigInt16_hex: "bigInt16 parseValue (Some (Buffer_toString_hex bs)) = Inr (be_decode bs)"
  by (simp add: bigInt16_def Buffer_toString_hex_nibbles parseBase_digits_text nibbles_all
      digits_val_nibbles)

lemma be_decode_nonneg: "0 \<le> be_decode bs"
  by (induction bs rule: rev_induct) (simp_all add: be_decode_def)

lemma be_decode_snoc: "be_decode (bs @ [b]) = be_decode bs * 256 + uint b"
  by (simp add: be_decode_def)

lemma uint_byte_less: "uint (b::byte) < 256"
  using unsigned_less [where 'a = int, of b] by simp

lemma be_decode_less: "be_decode bs < 256 ^ length bs"
proof (induction bs rule: rev_induct)
  case Nil
  show ?case by (simp add: be_decode_def)
next
  case (snoc b bs)
  have "be_decode bs + 1 \<le> 256 ^ length bs" using snoc.IH by simp
  then have "(be_decode bs + 1) * 256 \<le> 256 ^ length bs * 256" by (rule mult_right_mono) simp
  then show ?case using uint_byte_less [of b] by (simp add: be_decode_snoc algebra_simps)
qed

lemma be_decode_zeros: "be_decode (replicate n 0 @ bs) = be_decode bs"
  by (induction n) (simp_all add: be_decode_def)

lemma be_decode_example: "be_decode (replicate 255 0 @ [2]) = 2"
  by (simp add: be_decode_zeros) (simp add: be_decode_def)

subsection \<open>The digits of \<open>toBase\<close>\<close>

lemma toBase_loop_step:
  "2 \<le> b \<Longrightarrow> b \<le> n \<Longrightarrow> toBase_loop b n out = toBase_loop b (n div b) (out @ [n mod b])"
  by (subst toBase_loop.simps) simp

lemma toBase_loop_stop: "n < b \<Longrightarrow> toBase_loop b n out = out @ [n]"
  by (subst toBase_loop.simps) simp

lemma toBase_loop_out: "2 \<le> b \<Longrightarrow> toBase_loop b n out = out @ toBase_loop b n []"
proof (induction n arbitrary: out rule: less_induct)
  case (less n)
  show ?case
  proof (cases "b \<le> n")
    case True
    then have d: "n div b < n" using less.prems by simp
    have "toBase_loop b n out = toBase_loop b (n div b) (out @ [n mod b])"
      by (rule toBase_loop_step [OF less.prems True])
    also have "\<dots> = (out @ [n mod b]) @ toBase_loop b (n div b) []"
      by (rule less.IH [OF d less.prems])
    finally have l: "toBase_loop b n out = out @ [n mod b] @ toBase_loop b (n div b) []"
      by simp
    have "toBase_loop b n [] = toBase_loop b (n div b) ([] @ [n mod b])"
      by (rule toBase_loop_step [OF less.prems True])
    also have "\<dots> = ([] @ [n mod b]) @ toBase_loop b (n div b) []"
      by (rule less.IH [OF d less.prems])
    finally have r: "toBase_loop b n [] = [n mod b] @ toBase_loop b (n div b) []"
      by simp
    show ?thesis unfolding l r ..
  next
    case False
    then show ?thesis by (simp add: toBase_loop_stop)
  qed
qed

lemma toBase_loop_rec:
  assumes "2 \<le> b" "b \<le> n"
  shows "toBase_loop b n [] = (n mod b) # toBase_loop b (n div b) []"
proof -
  have "toBase_loop b n [] = toBase_loop b (n div b) ([] @ [n mod b])"
    by (rule toBase_loop_step [OF assms])
  also have "\<dots> = ([] @ [n mod b]) @ toBase_loop b (n div b) []"
    by (rule toBase_loop_out [OF assms(1)])
  finally show ?thesis by simp
qed

lemma toBase_loop_digits:
  "2 \<le> b \<Longrightarrow> list_all (\<lambda>d. d < b) (toBase_loop b n [])"
proof (induction n rule: less_induct)
  case (less n)
  show ?case
  proof (cases "b \<le> n")
    case True
    then have d: "n div b < n" using less.prems by simp
    show ?thesis using less.IH [OF d less.prems] less.prems
      by (simp add: toBase_loop_rec [OF less.prems True])
  next
    case False
    then show ?thesis by (simp add: toBase_loop_stop)
  qed
qed

lemma toBase_loop_val:
  "2 \<le> b \<Longrightarrow> lsb_val b (toBase_loop b n []) = n"
proof (induction n rule: less_induct)
  case (less n)
  show ?case
  proof (cases "b \<le> n")
    case True
    then have d: "n div b < n" using less.prems by simp
    show ?thesis using less.IH [OF d less.prems]
      by (simp add: toBase_loop_rec [OF less.prems True] lsb_val_def)
  next
    case False
    then show ?thesis by (simp add: toBase_loop_stop lsb_val_def)
  qed
qed

lemma toBase_loop_nonempty: "2 \<le> b \<Longrightarrow> toBase_loop b n [] \<noteq> []"
  by (cases "b \<le> n") (simp_all add: toBase_loop_rec toBase_loop_stop)

lemma toBase_loop_last:
  "2 \<le> b \<Longrightarrow> 0 < n \<Longrightarrow> last (toBase_loop b n []) \<noteq> 0"
proof (induction n rule: less_induct)
  case (less n)
  show ?case
  proof (cases "b \<le> n")
    case True
    then have d: "n div b < n" using less.prems by simp
    have p: "0 < n div b" using True less.prems by (simp add: div_greater_zero_iff)
    show ?thesis using less.IH [OF d less.prems(1) p] toBase_loop_nonempty [OF less.prems(1), of "n div b"]
      by (simp add: toBase_loop_rec [OF less.prems(1) True])
  next
    case False
    then show ?thesis using less.prems by (simp add: toBase_loop_stop)
  qed
qed

lemma toBase_loop_zero: "toBase_loop b 0 [] = [0]"
  by (subst toBase_loop.simps) auto

lemma toBase_loop_length:
  "2 \<le> b \<Longrightarrow> n < b ^ Suc k \<Longrightarrow> length (toBase_loop b n []) \<le> Suc k"
proof (induction k arbitrary: n)
  case 0
  then show ?case by (simp add: toBase_loop_stop)
next
  case (Suc k)
  show ?case
  proof (cases "b \<le> n")
    case True
    have "n div b < b ^ Suc k" using Suc.prems(2) by (simp add: less_mult_imp_div_less mult.commute)
    from Suc.IH [OF Suc.prems(1) this] show ?thesis
      by (simp add: toBase_loop_rec [OF Suc.prems(1) True])
  next
    case False
    then show ?thesis by (simp add: toBase_loop_stop)
  qed
qed

lemma toBase_loop_length_lower:
  "2 \<le> b \<Longrightarrow> b ^ k \<le> n \<Longrightarrow> Suc k \<le> length (toBase_loop b n [])"
proof (induction k arbitrary: n)
  case 0
  then show ?case using toBase_loop_nonempty [of b n] by (cases "toBase_loop b n []") simp_all
next
  case (Suc k)
  have bn: "b \<le> n"
  proof -
    have "1 \<le> b ^ k" using Suc.prems(1) by simp
    then have "b * 1 \<le> b * b ^ k" by (rule mult_le_mono2)
    then have "b \<le> b ^ Suc k" by simp
    then show ?thesis using Suc.prems(2) by (rule le_trans)
  qed
  have "b ^ k \<le> n div b"
  proof -
    have "b ^ k * b \<le> n" using Suc.prems(2) by (simp add: mult.commute)
    then show ?thesis using Suc.prems(1) by (simp add: less_eq_div_iff_mult_less_eq)
  qed
  from Suc.IH [OF Suc.prems(1) this] show ?case
    by (simp add: toBase_loop_rec [OF Suc.prems(1) bn])
qed

subsection \<open>\<open>modPow\<close> on a base that is not negative\<close>

lemma bigInt_mod_nonneg: "0 \<le> a \<Longrightarrow> 0 < m \<Longrightarrow> bigInt_mod a m = a mod m"
  by (cases "a = 0") (simp_all add: bigInt_mod_def)

lemma bigInt_mod_neg: "a < 0 \<Longrightarrow> 0 < m \<Longrightarrow> bigInt_mod a m = - ((- a) mod m)"
  by (simp add: bigInt_mod_def)

lemma modPow_loop_zero: "modPow_loop r 0 base m = r"
  by (subst modPow_loop.simps) simp

lemma modPow_loop_step:
  "0 < e \<Longrightarrow> base \<noteq> 0 \<Longrightarrow>
   modPow_loop r e base m =
     modPow_loop (if odd e then bigInt_mod (r * base) m else r) (e div 2) (bigInt_mod (base * base) m) m"
  by (subst modPow_loop.simps) simp

lemma modPow_loop_base_zero: "0 < e \<Longrightarrow> modPow_loop r e 0 m = 0"
  by (subst modPow_loop.simps) simp

lemma sq_pow_even:
  assumes "even e"
  shows "((b::int) * b) ^ (e div 2) = b ^ e"
proof -
  have "b ^ e = b ^ (2 * (e div 2))" using assms by simp
  also have "\<dots> = (b ^ 2) ^ (e div 2)" by (rule power_mult)
  finally show ?thesis by (simp only: power2_eq_square)
qed

lemma sq_pow_odd:
  assumes "odd e"
  shows "b * ((b::int) * b) ^ (e div 2) = b ^ e"
proof -
  have "e = Suc (2 * (e div 2))" using assms by presburger
  then have "b ^ e = b ^ Suc (2 * (e div 2))" by (rule arg_cong)
  also have "\<dots> = b * (b ^ 2) ^ (e div 2)" by (simp only: power_Suc power_mult)
  finally show ?thesis by (simp only: power2_eq_square)
qed

lemma modPow_loop_odd:
  "0 < e \<Longrightarrow> odd e \<Longrightarrow> base \<noteq> 0 \<Longrightarrow>
   modPow_loop r e base m = modPow_loop (bigInt_mod (r * base) m) (e div 2) (bigInt_mod (base * base) m) m"
  by (simp add: modPow_loop_step)

lemma modPow_loop_even:
  "0 < e \<Longrightarrow> even e \<Longrightarrow> base \<noteq> 0 \<Longrightarrow>
   modPow_loop r e base m = modPow_loop r (e div 2) (bigInt_mod (base * base) m) m"
  by (simp add: modPow_loop_step)

lemma mod_step_odd:
  "(((r * base) mod m) * ((base * base) mod m) ^ (e div 2)) mod (m::int) = (r * base ^ e) mod m"
  if "odd e"
proof -
  have "(((r * base) mod m) * ((base * base) mod m) ^ (e div 2)) mod m
        = ((r * base) * (base * base) ^ (e div 2)) mod m"
    by (rule mod_mult_cong) (simp_all add: power_mod)
  also have "(r * base) * (base * base) ^ (e div 2) = r * (base * (base * base) ^ (e div 2))"
    by (simp only: mult.assoc)
  also have "\<dots> = r * base ^ e" by (simp only: sq_pow_odd [OF that])
  finally show ?thesis .
qed

lemma mod_step_even:
  "(r * ((base * base) mod m) ^ (e div 2)) mod (m::int) = (r * base ^ e) mod m"
  if "even e"
proof -
  have "(r * ((base * base) mod m) ^ (e div 2)) mod m = (r * (base * base) ^ (e div 2)) mod m"
    by (rule mod_mult_cong) (simp_all add: power_mod)
  then show ?thesis by (simp only: sq_pow_even [OF that])
qed

lemma modPow_loop_nonneg:
  "0 < m \<Longrightarrow> 0 \<le> r \<Longrightarrow> r < m \<Longrightarrow> 0 \<le> base \<Longrightarrow>
   modPow_loop r e base m = (r * base ^ e) mod m"
proof (induction e arbitrary: r base rule: less_induct)
  case (less e)
  note m = less.prems(1)
  consider "e = 0" | "0 < e" "base = 0" | "0 < e" "base \<noteq> 0" "odd e" | "0 < e" "base \<noteq> 0" "even e"
    by auto
  then show ?case
  proof cases
    case 1
    then show ?thesis using less.prems by (simp add: modPow_loop_zero)
  next
    case 2
    then show ?thesis by (simp add: modPow_loop_base_zero power_0_left)
  next
    case 3
    have h: "e div 2 < e" using 3(1) by simp
    have rb: "bigInt_mod (r * base) m = (r * base) mod m"
      using less.prems by (intro bigInt_mod_nonneg) simp_all
    have bb: "bigInt_mod (base * base) m = (base * base) mod m"
      using less.prems by (intro bigInt_mod_nonneg) simp_all
    have "modPow_loop r e base m = modPow_loop ((r * base) mod m) (e div 2) ((base * base) mod m) m"
      by (simp only: modPow_loop_odd [OF 3(1) 3(3) 3(2)] rb bb)
    also have "\<dots> = (((r * base) mod m) * ((base * base) mod m) ^ (e div 2)) mod m"
      using m by (intro less.IH [OF h m]) simp_all
    finally show ?thesis by (simp only: mod_step_odd [OF 3(3)])
  next
    case 4
    have h: "e div 2 < e" using 4(1) by simp
    have bb: "bigInt_mod (base * base) m = (base * base) mod m"
      using less.prems by (intro bigInt_mod_nonneg) simp_all
    have "modPow_loop r e base m = modPow_loop r (e div 2) ((base * base) mod m) m"
      by (simp only: modPow_loop_even [OF 4(1) 4(3) 4(2)] bb)
    also have "\<dots> = (r * ((base * base) mod m) ^ (e div 2)) mod m"
      using m less.prems by (intro less.IH [OF h m]) simp_all
    finally show ?thesis by (simp only: mod_step_even [OF 4(3)])
  qed
qed

lemma modPow_nonneg:
  assumes "1 < m" "0 \<le> b"
  shows "modPow b e m = Inr (b ^ e mod m)"
proof -
  have "modPow_loop 1 e (b mod m) m = (1 * (b mod m) ^ e) mod m"
    using assms by (intro modPow_loop_nonneg) simp_all
  then show ?thesis using assms by (simp add: modPow_def bigInt_mod_nonneg power_mod)
qed

subsection \<open>The modulus\<close>

lemma N_pos: "1 < N"
  by (simp add: N_def)

lemma N_odd_part: "N = 4 * (N div 4) \<and> odd (N div 4) \<and> 1 < N div 4"
  by (simp add: N_def)

lemma N_not_dvd_power: "\<not> N dvd 2 ^ k"
proof
  assume d: "N dvd 2 ^ k"
  have "N div 4 dvd N" using N_odd_part by (metis dvd_triv_right)
  then have "N div 4 dvd 2 ^ k" using d by (rule dvd_trans)
  moreover have "coprime (N div 4) (2 ^ k)" using N_odd_part by simp
  ultimately have "is_unit (N div 4)" by (metis coprime_common_divisor dvd_refl)
  then show False using N_odd_part by simp
qed

lemma g_power_range: "1 \<le> g ^ k mod N \<and> g ^ k mod N \<le> N - 1"
proof -
  have "g ^ k mod N \<noteq> 0" using N_not_dvd_power [of k] by (simp add: g_def mod_eq_0_iff_dvd)
  moreover have "0 \<le> g ^ k mod N" "g ^ k mod N < N" using N_pos by simp_all
  ultimately show ?thesis by simp
qed

lemma modPow_g: "modPow g k N = Inr (g ^ k mod N)"
  using N_pos by (simp add: modPow_nonneg g_def)

subsection \<open>The calls of \<open>modPow\<close> with the modulus of the source\<close>

lemma N_nonzero: "N \<noteq> 0"
  using N_pos by simp

lemma modPow_N: "modPow b e N = Inr (modPow_loop 1 e (bigInt_mod b N) N)"
  by (simp add: modPow_def N_nonzero)

lemma modPow_loop_g: "modPow_loop 1 k (bigInt_mod g N) N = g ^ k mod N"
  using modPow_g [of k] by (simp add: modPow_N)

lemma N_bounds: "256 ^ 88 \<le> N \<and> N < 256 ^ 89"
  by (simp add: N_def)

lemma g_sq: "g ^ 2 mod N = 4"
  by (simp add: g_def N_def)

subsection \<open>Hexadecimal rendering\<close>

lemma last_lt: "list_all P ds \<Longrightarrow> ds \<noteq> [] \<Longrightarrow> P (last ds)"
  by (induction ds) (auto split: if_splits)

lemma digits_val_rev: "digits_val (map int (rev ds)) = int (lsb_val 16 ds)"
  by (induction ds) (simp_all add: digits_val_def lsb_val_def)

lemma alphabet_lower_hex: "d < 16 \<Longrightarrow> is_lower_hex (DEFAULT_ALPHABET ! d)"
  using hex_digit_cases [of d] by (auto simp: DEFAULT_ALPHABET_def is_lower_hex_def)

lemma alphabet_zero_iff: "d < 16 \<Longrightarrow> (DEFAULT_ALPHABET ! d = CHR ''0'') = (d = 0)"
  using hex_digit_cases [of d] by (auto simp: DEFAULT_ALPHABET_def)

lemma digits_lower_hex:
  "list_all (\<lambda>d. d < 16) ds \<Longrightarrow> list_all is_lower_hex (map (\<lambda>d. DEFAULT_ALPHABET ! d) ds)"
  by (induction ds) (simp_all add: alphabet_lower_hex)

lemma list_all_rev_iff: "list_all P (rev ds) = list_all P ds"
  by (simp add: list_all_iff)

lemma toString16_nonneg:
  "0 \<le> v \<Longrightarrow>
   bigInt_toString v 16 = map (\<lambda>d. DEFAULT_ALPHABET ! d) (rev (toBase_loop 16 (nat v) []))"
  by (simp add: bigInt_toString_def toArray_def Let_def)

lemma toBase16_digits: "list_all (\<lambda>d. d < 16) (rev (toBase_loop 16 n []))"
proof -
  have "list_all (\<lambda>d. d < 16) (toBase_loop 16 n [])" by (intro toBase_loop_digits) simp
  then show ?thesis by (simp only: list_all_rev_iff)
qed

lemma toString16_hex: "0 \<le> v \<Longrightarrow> list_all is_lower_hex (bigInt_toString v 16)"
  by (simp only: toString16_nonneg digits_lower_hex [OF toBase16_digits])

lemma toString16_nonempty: "bigInt_toString v 16 \<noteq> []"
  by (simp add: bigInt_toString_def toArray_def Let_def toBase_loop_nonempty)

lemma toString16_hd:
  assumes "0 < v"
  shows "hd (bigInt_toString v 16) \<noteq> CHR ''0''"
proof -
  let ?ds = "toBase_loop 16 (nat v) []"
  have ne: "?ds \<noteq> []" by (simp add: toBase_loop_nonempty)
  have dg: "list_all (\<lambda>d. d < 16) ?ds" by (intro toBase_loop_digits) simp
  have l0: "last ?ds \<noteq> 0" using assms by (intro toBase_loop_last) simp_all
  have l1: "last ?ds < 16" using last_lt [OF dg ne] by simp
  have "hd (bigInt_toString v 16) = DEFAULT_ALPHABET ! (last ?ds)"
    using ne assms by (simp add: toString16_nonneg hd_map hd_rev)
  then show ?thesis using alphabet_zero_iff [OF l1] l0 by simp
qed

lemma toString16_roundtrip:
  assumes "0 \<le> v"
  shows "parseBase parseValue (bigInt_toString v 16) = Inr v"
proof -
  have "parseBase parseValue (bigInt_toString v 16) =
        Inr (digits_val (map int (rev (toBase_loop 16 (nat v) []))))"
    by (simp only: toString16_nonneg [OF assms] parseBase_digits_text [OF toBase16_digits])
  also have "digits_val (map int (rev (toBase_loop 16 (nat v) []))) =
             int (lsb_val 16 (toBase_loop 16 (nat v) []))"
    by (rule digits_val_rev)
  also have "\<dots> = v" using assms by (simp add: toBase_loop_val)
  finally show ?thesis .
qed

lemma Buffer_toString_hex_length: "length (Buffer_toString_hex bs) = 2 * length bs"
  by (induction bs) (simp_all add: Buffer_toString_hex_def)

lemma Buffer_toString_hex_lower: "list_all is_lower_hex (Buffer_toString_hex bs)"
  by (simp only: Buffer_toString_hex_nibbles digits_lower_hex [OF nibbles_all])

subsection \<open>A negative base\<close>

lemma odd_mod_even: "even (m::int) \<Longrightarrow> odd a \<Longrightarrow> odd (a mod m)"
  by (simp add: dvd_mod_iff)

lemma modPow_loop_neg_odd:
  assumes m: "0 < m" "even m"
  shows "r < 0 \<Longrightarrow> odd r \<Longrightarrow> 0 \<le> base \<Longrightarrow> odd base \<Longrightarrow>
         modPow_loop r e base m < 0 \<and> odd (modPow_loop r e base m)"
proof (induction e arbitrary: r base rule: less_induct)
  case (less e)
  show ?case
  proof (cases "e = 0")
    case True
    then show ?thesis using less.prems by (simp add: modPow_loop_zero)
  next
    case False
    then have pos: "0 < e" and h: "e div 2 < e" by simp_all
    have bne: "base \<noteq> 0" using less.prems(4) by auto
    then have bpos: "0 < base" using less.prems(3) by simp
    have bb: "bigInt_mod (base * base) m = (base * base) mod m"
      using m(1) less.prems(3) by (intro bigInt_mod_nonneg) simp_all
    have bb0: "0 \<le> (base * base) mod m" using m(1) by simp
    have bbo: "odd ((base * base) mod m)"
      using m(2) less.prems(4) by (intro odd_mod_even) simp_all
    have neg: "r * base < 0" using less.prems(1) bpos by (rule mult_neg_pos)
    have rb: "bigInt_mod (r * base) m = - ((- (r * base)) mod m)"
      using neg m(1) by (rule bigInt_mod_neg)
    have rbo: "odd ((- (r * base)) mod m)"
      using m(2) less.prems(2,4) by (intro odd_mod_even) simp_all
    have "0 \<le> (- (r * base)) mod m" using m(1) by simp
    moreover have "(- (r * base)) mod m \<noteq> 0" using rbo by auto
    ultimately have rbn: "- ((- (r * base)) mod m) < 0" by simp
    have rbo': "odd (- ((- (r * base)) mod m))" using rbo by simp
    show ?thesis
    proof (cases "odd e")
      case True
      have "modPow_loop r e base m =
            modPow_loop (- ((- (r * base)) mod m)) (e div 2) ((base * base) mod m) m"
        by (simp only: modPow_loop_odd [OF pos True bne] rb bb)
      then show ?thesis using less.IH [OF h rbn rbo' bb0 bbo] by simp
    next
      case False
      then have ev: "even e" by simp
      have "modPow_loop r e base m = modPow_loop r (e div 2) ((base * base) mod m) m"
        by (simp only: modPow_loop_even [OF pos ev bne] bb)
      then show ?thesis using less.IH [OF h less.prems(1,2) bb0 bbo] by simp
    qed
  qed
qed

lemma four_dvd_g_power:
  assumes "2 \<le> k"
  shows "4 dvd g ^ k mod N"
proof -
  obtain j where k: "k = 2 + j" using assms by (auto simp: le_iff_add)
  have "(4::int) dvd 2 ^ k" by (simp add: k power_add)
  moreover have "4 dvd N" using N_odd_part by (metis dvd_triv_left)
  ultimately show ?thesis by (simp add: g_def dvd_mod)
qed

lemma N_even: "even N"
  by (simp add: N_def)

lemma modPow_loop_small_odd_B:
  assumes B: "0 \<le> B" "odd B" "B < 4" and x: "2 \<le> x" and e: "odd e"
  shows "bigInt_mod (B - g ^ x mod N) N = B - g ^ x mod N"
    and "B - g ^ x mod N < 0"
    and "modPow_loop 1 e (bigInt_mod (B - g ^ x mod N) N) N < 0"
proof -
  let ?gx = "g ^ x mod N"
  let ?b = "B - ?gx"
  have r: "1 \<le> ?gx" "?gx \<le> N - 1" using g_power_range [of x] by simp_all
  have d: "4 dvd ?gx" by (rule four_dvd_g_power [OF x])
  then have "4 \<le> ?gx" using r(1) by (auto elim!: dvdE)
  then show neg: "?b < 0" using B(3) by simp
  have lo: "- ?b < N" using r(2) B(1) by simp
  have "bigInt_mod ?b N = - ((- ?b) mod N)" using neg N_pos by (intro bigInt_mod_neg) simp_all
  also have "(- ?b) mod N = - ?b" using neg lo by (intro mod_pos_pos_trivial) simp_all
  finally show bm: "bigInt_mod ?b N = ?b" by simp
  have "(2::int) dvd 4" by simp
  then have "even ?gx" using d by (rule dvd_trans)
  then have bo: "odd ?b" using B(2) by simp
  have pos: "0 < e" using e by (cases e) simp_all
  have bne: "?b \<noteq> 0" using neg by simp
  have sq: "bigInt_mod (?b * ?b) N = (?b * ?b) mod N"
    using N_pos by (intro bigInt_mod_nonneg) simp_all
  have "modPow_loop 1 e ?b N = modPow_loop (bigInt_mod (1 * ?b) N) (e div 2) ((?b * ?b) mod N) N"
    by (simp only: modPow_loop_odd [OF pos e bne] sq)
  also have "bigInt_mod (1 * ?b) N = ?b" using bm by simp
  finally have st: "modPow_loop 1 e ?b N = modPow_loop ?b (e div 2) ((?b * ?b) mod N) N" .
  have "0 \<le> (?b * ?b) mod N" using N_pos by simp
  moreover have "odd ((?b * ?b) mod N)" using N_even bo by (intro odd_mod_even) simp_all
  ultimately have "modPow_loop ?b (e div 2) ((?b * ?b) mod N) N < 0"
    using modPow_loop_neg_odd [of N ?b "(?b * ?b) mod N" "e div 2"] N_pos N_even neg bo by simp
  then show "modPow_loop 1 e (bigInt_mod ?b N) N < 0" by (simp only: bm st)
qed

lemma toString16_negative:
  "v < 0 \<Longrightarrow>
   bigInt_toString v 16 =
     CHR ''-'' # map (\<lambda>d. DEFAULT_ALPHABET ! d) (rev (toBase_loop 16 (nat (- v)) []))"
  by (simp add: bigInt_toString_def toArray_def Let_def)

lemma toString16_roundtrip_negative:
  assumes "v < 0"
  shows "parseBase parseValue (bigInt_toString v 16) = Inr v"
proof -
  have "parseBase parseValue (bigInt_toString v 16) =
        Inr (- digits_val (map int (rev (toBase_loop 16 (nat (- v)) []))))"
    by (simp only: toString16_negative [OF assms] parseBase_minus_digits_text [OF toBase16_digits])
  also have "digits_val (map int (rev (toBase_loop 16 (nat (- v)) []))) =
             int (lsb_val 16 (toBase_loop 16 (nat (- v)) []))"
    by (rule digits_val_rev)
  also have "\<dots> = - v" using assms by (simp add: toBase_loop_val)
  finally show ?thesis by simp
qed

lemma bigInt16_toString: "bigInt16 parseValue (Some (bigInt_toString v 16)) = Inr v"
  by (cases "0 \<le> v")
    (simp_all add: bigInt16_def toString16_roundtrip toString16_roundtrip_negative)

subsection \<open>The digit arrays of \<open>toArray(256)\<close>\<close>

lemma toArray_small: "0 \<le> v \<Longrightarrow> v < 256 \<Longrightarrow> arr_value (toArray v 256) = [nat v]"
  by (simp add: toArray_def toBase_loop_stop)

lemma N_byte_length: "length (arr_value (toArray N 256)) = 89"
proof -
  have "nat \<bar>N\<bar> < 256 ^ Suc 88" using N_bounds N_pos by (simp add: nat_less_iff)
  then have "length (toBase_loop 256 (nat \<bar>N\<bar>) []) \<le> Suc 88"
    by (intro toBase_loop_length) simp_all
  moreover have "256 ^ 88 \<le> nat \<bar>N\<bar>" using N_bounds N_pos by (simp add: le_nat_iff)
  then have "Suc 88 \<le> length (toBase_loop 256 (nat \<bar>N\<bar>) [])"
    by (intro toBase_loop_length_lower) simp_all
  ultimately show ?thesis by (simp add: toArray_def)
qed

subsection \<open>The bindings of \<open>createPasswordCheckPayload\<close>\<close>

lemma Buffer_concat_uHash_args: "Buffer_concat (uHash_args A B) = Inl TypeError"
  by (simp add: uHash_args_def)

lemma Buffer_concat_M1Hash_args: "Buffer_concat (M1Hash_args A B S) = Inl TypeError"
  by (simp add: M1Hash_args_def)

lemma session_secret_present:
  "session_secret parseValue (Some st) pw =
   Inr (be_decode (sha256 (Buffer_from_base64 st @ Buffer_from_utf8 pw)))"
  by (simp add: session_secret_def Let_def bindE_Inr bigInt16_hex)

lemma session_secret_absent: "session_secret parseValue None pw = Inl TypeError"
  by (simp add: session_secret_def)

lemma private_ephemeral_value: "private_ephemeral parseValue rb = Inr (be_decode rb)"
  by (simp add: private_ephemeral_def bigInt16_hex)

lemma public_ephemeral_value: "public_ephemeral a = Inr (g ^ nat a mod N)"
  by (simp add: public_ephemeral_def modPow_g)

lemma scrambling_parameter_throws: "scrambling_parameter parseValue A B = Inl TypeError"
  by (simp add: scrambling_parameter_def Buffer_concat_uHash_args bindE_Inl)

lemma proof_hash_throws: "proof_hash A B S = Inl TypeError"
  by (simp add: proof_hash_def Buffer_concat_M1Hash_args bindE_Inl)

lemma createPasswordCheckPayload_outcome:
  "createPasswordCheckPayload parseValue rb pw pp =
     (case current_salt pp of
        None \<Rightarrow> Inl TypeError
      | Some st \<Rightarrow>
          (case bigInt16 parseValue (srp_B pp) of
             Inl e \<Rightarrow> Inl e
           | Inr B \<Rightarrow> Inl TypeError))"
proof (cases "current_salt pp")
  case None
  then show ?thesis
    by (simp add: createPasswordCheckPayload_def session_secret_absent bindE_Inl)
next
  case (Some st)
  show ?thesis
  proof (cases "bigInt16 parseValue (srp_B pp)")
    case (Inl e)
    then show ?thesis
      by (simp add: createPasswordCheckPayload_def Some session_secret_present
          private_ephemeral_value public_ephemeral_value bindE_Inr bindE_Inl)
  next
    case (Inr B)
    then show ?thesis
      by (simp add: createPasswordCheckPayload_def Some session_secret_present
          private_ephemeral_value public_ephemeral_value scrambling_parameter_throws
          bindE_Inr bindE_Inl)
  qed
qed

lemma shared_secret_value:
  "shared_secret B x a u =
   Inr (modPow_loop 1 (nat (a + u * x)) (bigInt_mod (B - g ^ nat x mod N) N) N)"
  by (simp add: shared_secret_def bindE_Inr modPow_N modPow_loop_g)

lemma shared_secret_negative:
  assumes "0 \<le> B" "odd B" "B < 4" "2 \<le> x" "odd (nat (a + u * x))"
  shows "map_sum id (\<lambda>S. S < 0) (shared_secret B x a u) = Inr True"
proof -
  have "2 \<le> nat x" using assms(4) by simp
  from modPow_loop_small_odd_B(3) [OF assms(1,2,3) this assms(5)]
  show ?thesis by (simp only: shared_secret_value map_sum.simps)
qed

lemma returned_payload_shape:
  "payload_tag (returned_payload v (g ^ k mod N) (sha256 m)) = ''inputCheckPasswordSRP''
   \<and> payload_srp_id (returned_payload v (g ^ k mod N) (sha256 m)) = v
   \<and> list_all is_lower_hex (payload_A (returned_payload v (g ^ k mod N) (sha256 m)))
   \<and> hd (payload_A (returned_payload v (g ^ k mod N) (sha256 m))) \<noteq> CHR ''0''
   \<and> length (payload_M1 (returned_payload v (g ^ k mod N) (sha256 m))) = 64
   \<and> list_all is_lower_hex (payload_M1 (returned_payload v (g ^ k mod N) (sha256 m)))"
proof -
  have r: "1 \<le> g ^ k mod N" using g_power_range [of k] by simp
  then have A0: "0 \<le> g ^ k mod N" and A1: "0 < g ^ k mod N" by simp_all
  show ?thesis
    using toString16_hex [OF A0] toString16_hd [OF A1] Buffer_toString_hex_lower [of "sha256 m"]
    by (simp add: returned_payload_def Buffer_toString_hex_length length_sha256)
qed

subsection \<open>Evaluations\<close>

lemma bigInt16_3: "bigInt16 parseValue (Some ''3'') = Inr 3"
  by code_simp

lemma bigInt16_0: "bigInt16 parseValue (Some ''0'') = Inr 0"
  by code_simp

lemma salt_example: "Buffer_from_base64 ''cw=='' = [115]"
  by code_simp

lemma example_x:
  "be_decode (sha256 ([115] @ Buffer_from_utf8 ''p'')) =
   85983118055533871055172442837596251233892321827050293104266399425426538297153"
  by code_simp

lemma bigInt16_N_text: "bigInt16 parseValue (Some N_text) = Inr N"
  by code_simp

lemma sha256_abc:
  "sha256 (Buffer_from_utf8 ''abc'') =
   [0xba, 0x78, 0x16, 0xbf, 0x8f, 0x01, 0xcf, 0xea, 0x41, 0x41, 0x40, 0xde, 0x5d, 0xae, 0x22, 0x23,
    0xb0, 0x03, 0x61, 0xa3, 0x96, 0x17, 0x7a, 0x9c, 0xb4, 0x10, 0xff, 0x61, 0xf2, 0x00, 0x15, 0xad]"
  by code_simp

section \<open>The claims\<close>

subsection \<open>C1: the values fed to the hashes\<close>

text \<open>
  C1. Lines 130 and 134 hand \<open>Buffer.concat\<close> the digit arrays \<open>toArray(256).value\<close> of
  \<open>A\<close>, \<open>B\<close> and \<open>S\<close>: plain arrays, which it rejects with a type error, so neither hash
  receives an input, whatever the values are. The arrays are not of fixed width either:
  256 is the radix, the values 4 and 3 give one digit each, and the modulus gives 89.
\<close>

theorem C1_hash_inputs_rejected:
  "Buffer_concat (uHash_args A B) = Inl TypeError
   \<and> Buffer_concat (M1Hash_args A B S) = Inl TypeError
   \<and> proof_hash A B S = Inl TypeError
   \<and> uHash_args 4 3 = [JArray [4], JArray [3]]
   \<and> length (arr_value (toArray N 256)) = 89"
  by (simp add: Buffer_concat_uHash_args Buffer_concat_M1Hash_args proof_hash_throws
      N_byte_length uHash_args_def toArray_small)

subsection \<open>C2: the constants\<close>

text \<open>
  C2. The literal of the source parses to \<open>N\<close>; it has 178 hexadecimal digits, so \<open>N\<close> has
  712 bits and 89 bytes, not 2048 bits and 256 bytes, and \<open>N\<close> is a multiple of 4, so it is
  not a prime. The generator is 2.
\<close>

theorem C2_modulus_constant:
  "bigInt16 parseValue (Some N_text) = Inr N \<and> length N_text = 178 \<and> 2 ^ 711 \<le> N \<and> N < 2 ^ 712
   \<and> length (arr_value (toArray N 256)) = 89 \<and> N = 4 * (N div 4) \<and> g = 2"
proof -
  have "length N_text = 178" by (simp add: N_text_def)
  moreover have "2 ^ 711 \<le> N \<and> N < 2 ^ 712" by (simp add: N_def)
  moreover have "N = 4 * (N div 4)" using N_odd_part by simp
  ultimately show ?thesis by (simp add: bigInt16_N_text N_byte_length g_def)
qed

subsection \<open>C3: the base of the shared-secret exponentiation\<close>

text \<open>
  C3. Line 133 subtracts \<open>g^x mod N\<close> from \<open>B\<close> with \<open>subtract\<close> and hands the difference to
  \<open>modPow\<close>, whose reduction keeps the sign of a negative base. With the values that lines
  121 to 129 bind for the password \<open>p\<close>, the salt \<open>cw==\<close>, the random bytes
  \<open>00 \<dots> 00 02\<close> and the challenge \<open>3\<close>, and with any odd \<open>u\<close>, the challenge is below
  \<open>g^x mod N\<close>, the exponent is odd, and the expression of line 133 evaluates to a negative
  \<open>S\<close>; a base in \<open>[0, N - 1]\<close> would give \<open>S\<close> in \<open>[0, N - 1]\<close>.
\<close>

theorem C3_shared_secret_negative:
  "session_secret parseValue (current_salt example_params) ''p'' =
     Inr 85983118055533871055172442837596251233892321827050293104266399425426538297153
   \<and> private_ephemeral parseValue example_random = Inr 2
   \<and> bigInt16 parseValue (srp_B example_params) = Inr 3
   \<and> map_sum id (\<lambda>S. S < 0)
        (shared_secret 3
           85983118055533871055172442837596251233892321827050293104266399425426538297153
           2 (2 * int k + 1)) = Inr True"
proof -
  let ?x = "85983118055533871055172442837596251233892321827050293104266399425426538297153 :: int"
  have x: "session_secret parseValue (current_salt example_params) ''p'' = Inr ?x"
    using example_x by (simp add: session_secret_present salt_example)
  have a: "private_ephemeral parseValue example_random = Inr 2"
    by (simp only: private_ephemeral_value be_decode_example)
  have b: "bigInt16 parseValue (srp_B example_params) = Inr 3"
    by (simp add: bigInt16_3)
  have nn: "0 \<le> 2 + (2 * int k + 1) * ?x" by simp
  have od: "odd (2 + (2 * int k + 1) * ?x)" by simp
  have "odd (nat z)" if "0 \<le> z" "odd z" for z :: int
    using that by (simp add: even_nat_iff)
  from this [OF nn od] have e: "odd (nat (2 + (2 * int k + 1) * ?x))" .
  have "map_sum id (\<lambda>S. S < 0) (shared_secret 3 ?x 2 (2 * int k + 1)) = Inr True"
    by (rule shared_secret_negative [OF _ _ _ _ e]) simp_all
  then show ?thesis using x a b by simp
qed

subsection \<open>C4: the range of the challenge\<close>

text \<open>
  C4 (as amended). \<open>createPasswordCheckPayload\<close> does not check the range of \<open>B\<close>. The
  challenge is only parsed, and the parse accepts every integer: the hexadecimal text of
  any \<open>B\<close>, zero, negative or beyond \<open>N\<close>, is read back as \<open>B\<close>. When the call fails, it
  fails with a type error or with the error of parsing \<open>srp_B\<close>; no failure is about the
  range. A challenge out of range yields no payload.
\<close>

theorem C4_no_range_check:
  "(createPasswordCheckPayload parseValue rb pw pp = Inl e \<longrightarrow>
      e = TypeError \<or> bigInt16 parseValue (srp_B pp) = Inl e)
   \<and> bigInt16 parseValue (Some (bigInt_toString B 16)) = Inr B
   \<and> (bigInt16 parseValue (srp_B pp) = Inr B' \<longrightarrow> B' \<le> 0 \<or> N \<le> B' \<longrightarrow>
        isl (createPasswordCheckPayload parseValue rb pw pp))"
proof -
  have "createPasswordCheckPayload parseValue rb pw pp = Inl e \<longrightarrow>
        e = TypeError \<or> bigInt16 parseValue (srp_B pp) = Inl e"
    unfolding createPasswordCheckPayload_outcome
    by (auto split: option.splits sum.splits)
  moreover have "isl (createPasswordCheckPayload parseValue rb pw pp)"
    unfolding createPasswordCheckPayload_outcome
    by (simp split: option.splits sum.splits)
  ultimately show ?thesis by (simp add: bigInt16_toString)
qed

theorem C4_no_range_check_witness:
  "\<forall>parseValue.
     createPasswordCheckPayload parseValue example_random ''p'' zero_challenge_params = Inl TypeError
     \<and> (TypeError = TypeError \<or> bigInt16 parseValue (srp_B zero_challenge_params) = Inl TypeError)
     \<and> bigInt16 parseValue (Some (bigInt_toString 0 16)) = Inr 0
     \<and> bigInt16 parseValue (srp_B zero_challenge_params) = Inr 0
     \<and> ((0::int) \<le> 0 \<or> N \<le> 0)
     \<and> isl (createPasswordCheckPayload parseValue example_random ''p'' zero_challenge_params)"
proof
  fix parseValue
  have r: "createPasswordCheckPayload parseValue example_random ''p'' zero_challenge_params =
           Inl TypeError"
    by (simp add: createPasswordCheckPayload_outcome bigInt16_0)
  have b: "bigInt16 parseValue (srp_B zero_challenge_params) = Inr 0"
    by (simp add: bigInt16_0)
  from C4_no_range_check [of parseValue example_random "''p''" zero_challenge_params TypeError 0 0]
    r b
  show "createPasswordCheckPayload parseValue example_random ''p'' zero_challenge_params = Inl TypeError
     \<and> (TypeError = TypeError \<or> bigInt16 parseValue (srp_B zero_challenge_params) = Inl TypeError)
     \<and> bigInt16 parseValue (Some (bigInt_toString 0 16)) = Inr 0
     \<and> bigInt16 parseValue (srp_B zero_challenge_params) = Inr 0
     \<and> ((0::int) \<le> 0 \<or> N \<le> 0)
     \<and> isl (createPasswordCheckPayload parseValue example_random ''p'' zero_challenge_params)"
    by simp
qed

text \<open>
  C4 as stated fails: the challenge \<open>0\<close> is parsed to \<open>B = 0\<close> without complaint, and the
  call then ends exactly as it does for the challenge \<open>3\<close>, with the type error of line 130.
\<close>

theorem C4_counterexample:
  "\<forall>parseValue.
     bigInt16 parseValue (srp_B zero_challenge_params) = Inr 0
     \<and> createPasswordCheckPayload parseValue example_random ''p'' zero_challenge_params = Inl TypeError
     \<and> bigInt16 parseValue (srp_B example_params) = Inr 3
     \<and> createPasswordCheckPayload parseValue example_random ''p'' example_params = Inl TypeError"
  by (simp add: createPasswordCheckPayload_outcome bigInt16_0 bigInt16_3)

subsection \<open>C5: the session secret\<close>

text \<open>
  C5. Whenever the salt is present, lines 121 to 125 bind \<open>x\<close> to the SHA-256 digest of the
  decoded salt followed by the UTF-8 bytes of the password, read as a big-endian unsigned
  integer: a function of the salt and the password alone.
\<close>

theorem C5_session_secret:
  "session_secret parseValue (Some salt_text) password =
   Inr (be_decode (sha256 (Buffer_from_base64 salt_text @ Buffer_from_utf8 password)))"
  by (rule session_secret_present)

subsection \<open>C6: the public ephemeral value\<close>

text \<open>
  C6. Line 126 binds \<open>a\<close> to the integer read from the random bytes,
  \<open>0 \<le> a < 256 ^ length\<close>, and line 127 binds \<open>A\<close> to \<open>g ^ a mod N\<close>, which lies in
  \<open>[1, N - 1]\<close>: the power is never 0.
\<close>

theorem C6_public_ephemeral_range:
  "private_ephemeral parseValue rb = Inr (be_decode rb)
   \<and> 0 \<le> be_decode rb \<and> be_decode rb < 256 ^ length rb
   \<and> public_ephemeral (be_decode rb) = Inr (g ^ nat (be_decode rb) mod N)
   \<and> 1 \<le> g ^ nat (be_decode rb) mod N
   \<and> g ^ nat (be_decode rb) mod N \<le> N - 1"
  using g_power_range [of "nat (be_decode rb)"] be_decode_nonneg [of rb] be_decode_less [of rb]
  by (simp add: private_ephemeral_value public_ephemeral_value)

subsection \<open>C7: the payload\<close>

text \<open>
  C7. No call of \<open>createPasswordCheckPayload\<close> returns a payload: every call ends in an
  exception. (The value of lines 136 to 141 would have the shape the claim gives, see
  \<open>returned_payload_shape\<close>, but the lines are never reached.)
\<close>

theorem C7_no_payload_returned:
  "isl (createPasswordCheckPayload parseValue rb pw pp)"
  unfolding createPasswordCheckPayload_outcome
  by (simp split: option.splits sum.splits)

subsection \<open>C8: a response with a field missing\<close>

text \<open>
  C8. When \<open>srp_id\<close>, \<open>srp_B\<close> or \<open>current_salt\<close> is missing from the response,
  \<open>getPasswordParams\<close> throws its error for missing fields, and
  \<open>getStarsRevenueWithdrawalUrl\<close> stops with that error before any payload is built.
\<close>

theorem C8_missing_fields:
  assumes "srp_id d = None \<or> srp_B d = None \<or> current_salt d = None"
  shows "getPasswordParams (Some d) = Inl MissingFields
       \<and> withdrawal_password parseValue (Some d) rb pw = Inl MissingFields"
proof -
  have "falsy_val (srp_id d) \<or> falsy_text (srp_B d) \<or> falsy_text (current_salt d)"
    using assms by (auto simp: falsy_val_def falsy_text_def)
  then have "getPasswordParams (Some d) = Inl MissingFields"
    by (simp add: getPasswordParams_def)
  then show ?thesis by (simp add: withdrawal_password_def bindE_Inl)
qed

theorem C8_missing_fields_witness:
  "\<forall>parseValue.
   (srp_id \<lparr>srp_id = Some (JSString ''77''), srp_B = None, current_salt = Some ''cw==''\<rparr> = None
      \<or> srp_B \<lparr>srp_id = Some (JSString ''77''), srp_B = None, current_salt = Some ''cw==''\<rparr> = None
      \<or> current_salt \<lparr>srp_id = Some (JSString ''77''), srp_B = None, current_salt = Some ''cw==''\<rparr> = None)
   \<and> getPasswordParams (Some \<lparr>srp_id = Some (JSString ''77''), srp_B = None, current_salt = Some ''cw==''\<rparr>)
       = Inl MissingFields
   \<and> withdrawal_password parseValue
         (Some \<lparr>srp_id = Some (JSString ''77''), srp_B = None, current_salt = Some ''cw==''\<rparr>)
         example_random ''p'' = Inl MissingFields"
  using C8_missing_fields [of "\<lparr>srp_id = Some (JSString ''77''), srp_B = None, current_salt = Some ''cw==''\<rparr>"
      _ example_random "''p''"]
  by simp

subsection \<open>C9: the run on fixed inputs\<close>

text \<open>
  C9. On the fixed inputs (password \<open>p\<close>, salt \<open>cw==\<close>, challenge \<open>3\<close>, random bytes
  \<open>00 \<dots> 00 02\<close>) the call binds \<open>x\<close>, \<open>a = 2\<close>, \<open>A = 4\<close> and \<open>B = 3\<close> and then stops at
  line 130 with a type error: \<open>u\<close>, \<open>S\<close> and \<open>M1\<close> are not computed and no payload is
  produced.
\<close>

theorem C9_fixed_run_stops:
  "session_secret parseValue (current_salt example_params) ''p'' =
     Inr 85983118055533871055172442837596251233892321827050293104266399425426538297153
   \<and> private_ephemeral parseValue example_random = Inr 2
   \<and> public_ephemeral 2 = Inr 4
   \<and> bigInt16 parseValue (srp_B example_params) = Inr 3
   \<and> scrambling_parameter parseValue 4 3 = Inl TypeError
   \<and> createPasswordCheckPayload parseValue example_random ''p'' example_params = Inl TypeError"
proof -
  have x: "session_secret parseValue (current_salt example_params) ''p'' =
           Inr 85983118055533871055172442837596251233892321827050293104266399425426538297153"
    using example_x by (simp add: session_secret_present salt_example)
  have a: "private_ephemeral parseValue example_random = Inr 2"
    by (simp only: private_ephemeral_value be_decode_example)
  have A: "public_ephemeral 2 = Inr 4"
    by (simp add: public_ephemeral_value g_sq)
  have r: "createPasswordCheckPayload parseValue example_random ''p'' example_params = Inl TypeError"
    by (simp add: createPasswordCheckPayload_outcome bigInt16_3)
  show ?thesis using x a A r by (simp add: bigInt16_3 scrambling_parameter_throws)
qed

subsection \<open>C10: the scrambling parameter\<close>

text \<open>
  C10. Lines 130 and 131 bind no \<open>u\<close>: for every \<open>A\<close> and \<open>B\<close> the argument of the hash
  throws the type error of \<open>Buffer.concat\<close>.
\<close>

theorem C10_no_scrambling_parameter:
  "scrambling_parameter parseValue A B = Inl TypeError"
  by (rule scrambling_parameter_throws)

end
